theory Spec2Isabelle
  imports Main "HOL-Library.Word"
begin

unbundle bit_operations_syntax

section \<open>Data model of MCP23017.hpp\<close>

type_synonym u8 = "8 word"
type_synonym u16 = "16 word"
type_synonym i32 = "32 word"

text \<open>
  The three enumerations of the header. An object of an enumeration type can
  hold a value that is none of its enumerators (\<^verbatim>\<open>static_cast<pin_Mode>(2)\<close>,
  \<^verbatim>\<open>static_cast<int_Mode>(3)\<close>); \<open>pin_Mode_other\<close> and \<open>int_Mode_other\<close> stand
  for such a value, which takes the \<^verbatim>\<open>default:\<close> branch of a switch. For
  \<^verbatim>\<open>pin_Value\<close> the enumerator \<^verbatim>\<open>ERROR\<close> takes the \<^verbatim>\<open>default:\<close> branch of
  \<^verbatim>\<open>pinWrite\<close> and the \<^verbatim>\<open>else\<close> branch of \<^verbatim>\<open>intOutputMode\<close>, as every value
  other than \<^verbatim>\<open>HIGH\<close> and \<^verbatim>\<open>LOW\<close> does.
\<close>

datatype pin_Mode = INPUT | OUTPUT | INPUT_PULLUP | pin_Mode_other
datatype pin_Value = HIGH | LOW | ERROR
datatype int_Mode = CHANGE | RISING | FALLING | int_Mode_other

record IntEvent =
  pin :: u16
  level :: bool

text \<open>
  One entry per \<^verbatim>\<open>write(fd, ..)\<close> or \<^verbatim>\<open>read(fd, ..)\<close> system call the driver
  makes, in order: the bytes handed to \<^verbatim>\<open>write\<close>, and whether the call transferred
  the requested number of bytes.
\<close>

datatype syscall = SysWrite "u8 list" bool | SysRead bool

text \<open>
  The object holds only \<^verbatim>\<open>fd\<close>. The rest of the record is the world the driver
  acts on: the chip's register file and address pointer, the outcome of the
  coming system calls on a valid descriptor (\<open>True\<close> marks a call that fails;
  past the end of the list every call succeeds), the system calls made so far,
  and the lines printed to \<^verbatim>\<open>std::cerr\<close>.
\<close>

record mcp =
  fd :: int
  chip :: "u8 \<Rightarrow> u8"
  ptr :: u8
  faults :: "bool list"
  calls :: "syscall list"
  cerr :: "string list"

subsection \<open>Register map\<close>

definition IODIRA :: u8 where "IODIRA = 0x00"
definition IODIRB :: u8 where "IODIRB = 0x01"
definition GPPUA :: u8 where "GPPUA = 0x0C"
definition GPPUB :: u8 where "GPPUB = 0x0D"
definition GPIOA :: u8 where "GPIOA = 0x12"
definition GPIOB :: u8 where "GPIOB = 0x13"
definition OLATA :: u8 where "OLATA = 0x14"
definition OLATB :: u8 where "OLATB = 0x15"
definition GPINTENA :: u8 where "GPINTENA = 0x04"
definition GPINTENB :: u8 where "GPINTENB = 0x05"
definition IOCON :: u8 where "IOCON = 0x0A"
definition DEFVALA :: u8 where "DEFVALA = 0x06"
definition DEFVALB :: u8 where "DEFVALB = 0x07"
definition INTFA :: u8 where "INTFA = 0x0E"
definition INTFB :: u8 where "INTFB = 0x0F"
definition INTCAPA :: u8 where "INTCAPA = 0x10"
definition INTCAPB :: u8 where "INTCAPB = 0x11"
definition INTCONA :: u8 where "INTCONA = 0x08"
definition INTCONB :: u8 where "INTCONB = 0x09"

subsection \<open>C arithmetic on bytes\<close>

text \<open>
  \<^verbatim>\<open>1 << bit\<close> is an \<^verbatim>\<open>int\<close>. In \<^verbatim>\<open>val |= m\<close> and \<^verbatim>\<open>val &= m\<close> the byte is
  promoted to \<^verbatim>\<open>int\<close> (zero extended), combined with \<open>m\<close>, and the result is
  truncated to eight bits again.
\<close>

definition shl1 :: "nat \<Rightarrow> i32" where
  "shl1 n = push_bit n 1"

definition or_assign :: "u8 \<Rightarrow> i32 \<Rightarrow> u8" where
  "or_assign val m = ucast ((ucast val :: i32) OR m)"

definition and_assign :: "u8 \<Rightarrow> i32 \<Rightarrow> u8" where
  "and_assign val m = ucast ((ucast val :: i32) AND m)"

text \<open>\<^verbatim>\<open>(uint16_t(b) << 8) | a\<close>, computed in \<^verbatim>\<open>int\<close> and stored in a \<^verbatim>\<open>uint16_t\<close>.\<close>

definition assemble16 :: "u8 \<Rightarrow> u8 \<Rightarrow> u16" where
  "assemble16 b a = ucast (push_bit 8 (ucast (ucast b :: u16) :: i32) OR (ucast a :: i32))"

text \<open>\<^verbatim>\<open>flags & (1 << pin)\<close> converted to \<^verbatim>\<open>bool\<close>.\<close>

definition test_bit16 :: "u16 \<Rightarrow> nat \<Rightarrow> bool" where
  "test_bit16 flags n = ((ucast flags :: i32) AND shl1 n \<noteq> 0)"

section \<open>The bus transport\<close>

text \<open>
  \<^verbatim>\<open>write(fd, data, n) == n\<close>. A negative descriptor is rejected by the kernel.
  On a valid descriptor the call succeeds unless the schedule says otherwise;
  a one-byte write selects a register, a two-byte write selects it and stores
  the value. A call that fails, a short transfer included, leaves the chip as
  it was. The driver never passes any other length.
\<close>

definition sys_write :: "u8 list \<Rightarrow> mcp \<Rightarrow> bool \<times> mcp" where
  "sys_write data s =
     (if fd s < 0 then (False, s\<lparr>calls := calls s @ [SysWrite data False]\<rparr>)
      else if faults s \<noteq> [] \<and> hd (faults s)
      then (False, s\<lparr>faults := tl (faults s), calls := calls s @ [SysWrite data False]\<rparr>)
      else
        (True,
         (case data of
            [r] \<Rightarrow> s\<lparr>ptr := r\<rparr>
          | [r, v] \<Rightarrow> s\<lparr>ptr := r, chip := (chip s)(r := v)\<rparr>
          | _ \<Rightarrow> s)
         \<lparr>faults := tl (faults s), calls := calls s @ [SysWrite data True]\<rparr>))"

text \<open>\<^verbatim>\<open>read(fd, &value, 1) == 1\<close>, with the byte read when it succeeds.\<close>

definition sys_read :: "mcp \<Rightarrow> u8 option \<times> mcp" where
  "sys_read s =
     (if fd s < 0 then (None, s\<lparr>calls := calls s @ [SysRead False]\<rparr>)
      else if faults s \<noteq> [] \<and> hd (faults s)
      then (None, s\<lparr>faults := tl (faults s), calls := calls s @ [SysRead False]\<rparr>)
      else (Some (chip s (ptr s)),
            s\<lparr>faults := tl (faults s), calls := calls s @ [SysRead True]\<rparr>))"

definition log_err :: "string \<Rightarrow> mcp \<Rightarrow> mcp" where
  "log_err msg s = s\<lparr>cerr := cerr s @ [msg]\<rparr>"

section \<open>Private helpers of the class\<close>

definition pinCheck :: "int \<Rightarrow> mcp \<Rightarrow> bool \<times> mcp" where
  "pinCheck p s =
     (if p < 0 \<or> p > 15 then (False, log_err ''Valid Pinnums 0-15'' s) else (True, s))"

definition writeReg :: "u8 \<Rightarrow> u8 \<Rightarrow> mcp \<Rightarrow> mcp" where
  "writeReg reg val s =
     (case sys_write [reg, val] s of
        (True, s1) \<Rightarrow> s1
      | (False, s1) \<Rightarrow> log_err ''Error: I2C write failed'' s1)"

text \<open>\<open>value\<close> starts at 0 and stays 0 when either system call fails.\<close>

definition readReg :: "u8 \<Rightarrow> mcp \<Rightarrow> u8 \<times> mcp" where
  "readReg reg s =
     (case sys_write [reg] s of
        (False, s1) \<Rightarrow> (0, log_err ''Error: I2C write failed'' s1)
      | (True, s1) \<Rightarrow>
          (case sys_read s1 of
             (None, s2) \<Rightarrow> (0, log_err ''Error: I2C write failed'' s2)
           | (Some v, s2) \<Rightarrow> (v, s2)))"

definition readIntFlags :: "bool \<Rightarrow> mcp \<Rightarrow> u16 \<times> mcp" where
  "readIntFlags clear s =
     (case readReg INTFA s of (a, s1) \<Rightarrow>
      case readReg INTFB s1 of (b, s2) \<Rightarrow>
      let flags = assemble16 b a in
      if clear then (flags, writeReg INTFB 0x00 (writeReg INTFA 0x00 s2))
      else (flags, s2))"

section \<open>Public operations\<close>


definition pinMode :: "u8 \<Rightarrow> pin_Mode \<Rightarrow> mcp \<Rightarrow> mcp" where
  "pinMode p mode s =
     (case pinCheck (uint p) s of
        (False, s0) \<Rightarrow> s0
      | (True, s0) \<Rightarrow>
          let regDir = (if p < 8 then IODIRA else IODIRB);
              regPup = (if p < 8 then GPPUA else GPPUB);
              b = p mod 8
          in case readReg regDir s0 of (dirVal, s1) \<Rightarrow>
             case readReg regPup s1 of (pupVal, s2) \<Rightarrow>
             (case (case mode of
                      OUTPUT \<Rightarrow> Some (and_assign dirVal (NOT (shl1 (unat b))))
                    | INPUT \<Rightarrow> Some (or_assign dirVal (shl1 (unat b)))
                    | INPUT_PULLUP \<Rightarrow> Some (or_assign dirVal (shl1 (unat b)))
                    | pin_Mode_other \<Rightarrow> None) of
                None \<Rightarrow>
                  log_err ''Invalid input: pinMode(pin, INPUT/OUTPUT/INPUT_PULLUP)'' s2
              | Some dirVal' \<Rightarrow>
                  let pupVal' = (case mode of
                                   INPUT_PULLUP \<Rightarrow> or_assign pupVal (shl1 (unat b))
                                 | INPUT \<Rightarrow> and_assign pupVal (NOT (shl1 (unat b)))
                                 | OUTPUT \<Rightarrow> and_assign pupVal (NOT (shl1 (unat b)))
                                 | pin_Mode_other \<Rightarrow> pupVal)
                  in writeReg regPup pupVal' (writeReg regDir dirVal' s2)))"

definition pinWrite :: "u8 \<Rightarrow> pin_Value \<Rightarrow> mcp \<Rightarrow> mcp" where
  "pinWrite p v s =
     (case pinCheck (uint p) s of
        (False, s0) \<Rightarrow> s0
      | (True, s0) \<Rightarrow>
          let reg = (if p < 8 then OLATA else OLATB);
              b = p mod 8
          in case readReg reg s0 of (val, s1) \<Rightarrow>
             (case v of
                HIGH \<Rightarrow> writeReg reg (or_assign val (shl1 (unat b))) s1
              | LOW \<Rightarrow> writeReg reg (and_assign val (NOT (shl1 (unat b)))) s1
              | ERROR \<Rightarrow> log_err ''Invalid input: pinWrite(pin, HIGH/LOW)'' s1))"

text \<open>\<^verbatim>\<open>((val >> bit) & 1) ? HIGH : LOW\<close>, computed in \<^verbatim>\<open>int\<close>.\<close>

definition pinRead :: "u8 \<Rightarrow> mcp \<Rightarrow> pin_Value \<times> mcp" where
  "pinRead p s =
     (case pinCheck (uint p) s of
        (False, s0) \<Rightarrow> (ERROR, s0)
      | (True, s0) \<Rightarrow>
          let reg = (if p < 8 then GPIOA else GPIOB);
              b = p mod 8
          in case readReg reg s0 of (val, s1) \<Rightarrow>
             (if drop_bit (unat b) (ucast val :: i32) AND 1 \<noteq> 0 then HIGH else LOW, s1))"

definition enableInt :: "u8 \<Rightarrow> bool \<Rightarrow> mcp \<Rightarrow> mcp" where
  "enableInt p enable s =
     (case pinCheck (uint p) s of
        (False, s0) \<Rightarrow> s0
      | (True, s0) \<Rightarrow>
          let regGPINTEN = (if p < 8 then GPINTENA else GPINTENB);
              b = p mod 8
          in case readReg regGPINTEN s0 of (regVal, s1) \<Rightarrow>
             let regVal' = (if enable then or_assign regVal (shl1 (unat b))
                            else and_assign regVal (NOT (shl1 (unat b))))
             in writeReg regGPINTEN regVal' s1)"

definition intOutputMode :: "pin_Value \<Rightarrow> bool \<Rightarrow> bool \<Rightarrow> mcp \<Rightarrow> mcp" where
  "intOutputMode w_INTPOL w_ODR w_MIRROR s =
     (case readReg IOCON s of (val, s1) \<Rightarrow>
      let val1 = (if w_ODR then or_assign val (shl1 2) else and_assign val (NOT (shl1 2)));
          val2 = (if \<not> w_ODR
                  then (if w_INTPOL = HIGH then or_assign val1 (shl1 1)
                        else and_assign val1 (NOT (shl1 1)))
                  else and_assign val1 (NOT (shl1 1)));
          val3 = (if w_MIRROR then or_assign val2 (shl1 6) else and_assign val2 (NOT (shl1 6)))
      in writeReg IOCON val3 s1)"

definition intTriggerMode :: "u8 \<Rightarrow> int_Mode \<Rightarrow> mcp \<Rightarrow> mcp" where
  "intTriggerMode p mode s =
     (case pinCheck (uint p) s of
        (False, s0) \<Rightarrow> s0
      | (True, s0) \<Rightarrow>
          let regDEFVAL = (if p < 8 then DEFVALA else DEFVALB);
              regINTCON = (if p < 8 then INTCONA else INTCONB);
              b = p mod 8
          in case readReg regINTCON s0 of (intConVal, s1) \<Rightarrow>
             case readReg regDEFVAL s1 of (defVal, s2) \<Rightarrow>
             (case (case mode of
                      CHANGE \<Rightarrow> Some (and_assign intConVal (NOT (shl1 (unat b))), defVal)
                    | RISING \<Rightarrow> Some (or_assign intConVal (shl1 (unat b)),
                                       or_assign defVal (shl1 (unat b)))
                    | FALLING \<Rightarrow> Some (or_assign intConVal (shl1 (unat b)),
                                        and_assign defVal (NOT (shl1 (unat b))))
                    | int_Mode_other \<Rightarrow> None) of
                None \<Rightarrow>
                  log_err ''Invalid input: pinInterrupt(pin, CHANGE/RISING/FALLING)'' s2
              | Some (intConVal', defVal') \<Rightarrow>
                  writeReg regDEFVAL defVal' (writeReg regINTCON intConVal' s2)))"

definition getInterruptFlags :: "bool \<Rightarrow> mcp \<Rightarrow> u16 \<times> mcp" where
  "getInterruptFlags clear s = readIntFlags clear s"



definition isInterruptOnPin :: "u8 \<Rightarrow> bool \<Rightarrow> mcp \<Rightarrow> bool \<times> mcp" where
  "isInterruptOnPin p clear s =
     (case pinCheck (uint p) s of
        (False, s0) \<Rightarrow> (False, s0)
      | (True, s0) \<Rightarrow>
          (case readIntFlags clear s0 of (flags, s1) \<Rightarrow> (test_bit16 flags (unat p), s1)))"

definition clearIntCapture :: "u16 \<Rightarrow> mcp \<Rightarrow> mcp" where
  "clearIntCapture p s = (if p < 8 then snd (readReg GPIOA s) else snd (readReg GPIOB s))"

function getIntCapture_loop ::
  "bool \<Rightarrow> u16 \<Rightarrow> u16 \<Rightarrow> nat \<Rightarrow> IntEvent list \<Rightarrow> mcp \<Rightarrow> IntEvent list \<times> mcp" where
  "getIntCapture_loop clear flags captured n events s =
     (if n < 16
      then (if test_bit16 flags n
            then getIntCapture_loop clear flags captured (n + 1)
                   (events @ [\<lparr>pin = of_nat n, level = test_bit16 captured n\<rparr>])
                   (if clear then clearIntCapture (of_nat n) s else s)
            else getIntCapture_loop clear flags captured (n + 1) events s)
      else (events, s))"
  by pat_completeness auto
termination
  by (relation "measure (\<lambda>(clear, flags, captured, n, events, s). 16 - n)") auto

definition getIntCapture :: "bool \<Rightarrow> mcp \<Rightarrow> IntEvent list \<times> mcp" where
  "getIntCapture clear s =
     (case readReg INTFA s of (a, s1) \<Rightarrow>
      case readReg INTFB s1 of (b, s2) \<Rightarrow>
      case readReg INTCAPA s2 of (capA, s3) \<Rightarrow>
      case readReg INTCAPB s3 of (capB, s4) \<Rightarrow>
      getIntCapture_loop clear (assemble16 b a) (assemble16 capB capA) 0 [] s4)"




section \<open>States used in the statements\<close>

text \<open>The transport works: the descriptor is valid and no coming system call fails.\<close>

definition healthy :: "mcp \<Rightarrow> bool" where
  "healthy s \<longleftrightarrow> 0 \<le> fd s \<and> faults s = []"

text \<open>Concrete worlds for evaluating the operations.\<close>

definition idle_world :: mcp where
  "idle_world = \<lparr>fd = 3, chip = (\<lambda>r. 0x00), ptr = 0x00, faults = [], calls = [], cerr = []\<rparr>"

definition ones_world :: mcp where
  "ones_world = \<lparr>fd = 3, chip = (\<lambda>r. 0xFF), ptr = 0x00, faults = [], calls = [], cerr = []\<rparr>"

definition flagA_world :: mcp where
  "flagA_world = idle_world\<lparr>chip := (\<lambda>r. if r = INTFA then 0x01 else 0x00)\<rparr>"

definition flagB_world :: mcp where
  "flagB_world = idle_world\<lparr>chip := (\<lambda>r. if r = INTFB then 0x01 else 0x00)\<rparr>"

definition capture_world :: mcp where
  "capture_world = idle_world\<lparr>chip := (\<lambda>r. if r = INTFA then 0x05 else if r = INTFB then 0x01
                                           else if r = INTCAPA then 0x04 else 0x00)\<rparr>"

definition nack_world :: mcp where
  "nack_world = ones_world\<lparr>faults := [True]\<rparr>"

definition nack2_world :: mcp where
  "nack2_world = ones_world\<lparr>faults := [True, True]\<rparr>"

text \<open>
  A priming read fails when either of its two system calls does: the write that
  selects the register, or the read of the byte.
\<close>

definition readReg_fails :: "u8 \<Rightarrow> mcp \<Rightarrow> bool" where
  "readReg_fails reg s \<longleftrightarrow>
     (case sys_write [reg] s of
        (False, s1) \<Rightarrow> True
      | (True, s1) \<Rightarrow> fst (sys_read s1) = None)"






section \<open>Bit-level facts\<close>

lemmas reg_defs =
  IODIRA_def IODIRB_def GPPUA_def GPPUB_def GPIOA_def GPIOB_def OLATA_def OLATB_def
  GPINTENA_def GPINTENB_def IOCON_def DEFVALA_def DEFVALB_def INTFA_def INTFB_def
  INTCAPA_def INTCAPB_def INTCONA_def INTCONB_def

lemma bit_shl1: "bit (shl1 n) k \<longleftrightarrow> k = n \<and> n < 32"
  unfolding shl1_def by (auto simp: bit_push_bit_iff bit_1_iff simp del: push_bit_of_1)

lemma bit_or_assign_shl1:
  "n < 32 \<Longrightarrow> bit (or_assign val (shl1 n)) k \<longleftrightarrow> k < 8 \<and> (bit val k \<or> k = n)"
  by (auto simp: or_assign_def bit_ucast_iff bit_or_iff bit_shl1 dest: bit_imp_le_length)

lemma bit_and_assign_not_shl1:
  "n < 32 \<Longrightarrow> bit (and_assign val (NOT (shl1 n))) k \<longleftrightarrow> bit val k \<and> k \<noteq> n"
  by (auto simp: and_assign_def bit_ucast_iff bit_and_iff bit_not_iff bit_shl1
      dest: bit_imp_le_length)

lemma bit_assemble16:
  "bit (assemble16 b a) k \<longleftrightarrow> (k < 8 \<and> bit a k) \<or> (8 \<le> k \<and> bit b (k - 8))"
  by (auto simp: assemble16_def bit_ucast_iff bit_or_iff bit_push_bit_iff
      dest: bit_imp_le_length)

lemma assemble16_low: "ucast (assemble16 b a) = a"
  by (rule bit_word_eqI) (auto simp: bit_ucast_iff bit_assemble16)

lemma assemble16_high: "ucast (drop_bit 8 (assemble16 b a)) = b"
  by (rule bit_word_eqI) (auto simp: bit_ucast_iff bit_drop_bit_eq bit_assemble16)

lemma test_bit16_iff: "n < 32 \<Longrightarrow> test_bit16 flags n \<longleftrightarrow> bit flags n"
proof -
  assume n: "n < 32"
  have "(ucast flags :: i32) AND shl1 n = 0 \<longleftrightarrow> \<not> bit flags n"
    using n by (subst bit_eq_iff)
      (auto simp: bit_and_iff bit_ucast_iff bit_shl1 dest: bit_imp_le_length)
  then show ?thesis by (simp add: test_bit16_def)
qed

lemmas world_defs = idle_world_def ones_world_def flagA_world_def flagB_world_def

declare getIntCapture_loop.simps [simp del]


lemmas bus_defs = readReg_def writeReg_def sys_write_def sys_read_def log_err_def pinCheck_def

section \<open>The helpers on a working transport\<close>

lemma readReg_healthy:
  "healthy s \<Longrightarrow> readReg reg s =
     (chip s reg, s\<lparr>ptr := reg, calls := calls s @ [SysWrite [reg] True, SysRead True]\<rparr>)"
  by (simp add: healthy_def readReg_def sys_write_def sys_read_def)

lemma writeReg_healthy:
  "healthy s \<Longrightarrow> writeReg reg v s =
     s\<lparr>ptr := reg, chip := (chip s)(reg := v), calls := calls s @ [SysWrite [reg, v] True]\<rparr>"
  by (simp add: healthy_def writeReg_def sys_write_def)

lemma healthy_upd [simp]:
  "healthy (s\<lparr>ptr := r\<rparr>) = healthy s"
  "healthy (s\<lparr>chip := c\<rparr>) = healthy s"
  "healthy (s\<lparr>calls := cs\<rparr>) = healthy s"
  "healthy (s\<lparr>cerr := e\<rparr>) = healthy s"
  by (simp_all add: healthy_def)

lemma readIntFlags_healthy:
  "healthy s \<Longrightarrow> readIntFlags clear s =
     (assemble16 (chip s INTFB) (chip s INTFA),
      if clear
      then s\<lparr>ptr := INTFB, chip := (chip s)(INTFA := 0, INTFB := 0),
             calls := calls s @ [SysWrite [INTFA] True, SysRead True,
                                 SysWrite [INTFB] True, SysRead True,
                                 SysWrite [INTFA, 0] True, SysWrite [INTFB, 0] True]\<rparr>
      else s\<lparr>ptr := INTFB,
             calls := calls s @ [SysWrite [INTFA] True, SysRead True,
                                 SysWrite [INTFB] True, SysRead True]\<rparr>)"
  by (simp add: readIntFlags_def readReg_healthy writeReg_healthy)

lemma calls_writeReg:
  "calls (writeReg reg v s) =
     calls s @ [SysWrite [reg, v] (0 \<le> fd s \<and> (faults s = [] \<or> \<not> hd (faults s)))]"
  by (auto simp: writeReg_def sys_write_def log_err_def)

lemma pinCheck_ok: "p \<le> 15 \<Longrightarrow> pinCheck (uint (p::u8)) s = (True, s)"
  by (simp add: pinCheck_def word_le_def)

lemma pinCheck_bad: "15 < p \<Longrightarrow> pinCheck (uint (p::u8)) s = (False, log_err ''Valid Pinnums 0-15'' s)"
  by (simp add: pinCheck_def word_less_def)

lemma unat_mod8: "unat ((p::u8) mod 8) = unat p mod 8"
  by (simp add: unat_mod)

section \<open>Interrupt flag assembly\<close>

text \<open>
  C1. Whatever bytes \<open>a\<close> and \<open>b\<close> the reads of INTFA and INTFB return,
  \<^verbatim>\<open>getInterruptFlags\<close> returns the 16-bit value \<open>(b << 8) | a\<close>: its low
  byte is \<open>a\<close> (bank A) and its high byte is \<open>b\<close> (bank B).
\<close>

theorem getInterruptFlags_assembles:
  assumes "readReg INTFA s = (a, s1)" and "readReg INTFB s1 = (b, s2)"
  shows "fst (getInterruptFlags clear s) = push_bit 8 (ucast b) OR ucast a
       \<and> ucast (fst (getInterruptFlags clear s)) = a
       \<and> ucast (drop_bit 8 (fst (getInterruptFlags clear s))) = b"
proof -
  have r: "fst (getInterruptFlags clear s) = assemble16 b a"
    using assms by (simp add: getInterruptFlags_def readIntFlags_def Let_def)
  have e: "assemble16 b a = push_bit 8 (ucast b) OR ucast a"
    by (rule bit_word_eqI)
      (auto simp: bit_assemble16 bit_or_iff bit_push_bit_iff bit_ucast_iff
        dest: bit_imp_le_length)
  have "fst (getInterruptFlags clear s) = push_bit 8 (ucast b) OR ucast a"
    using r e by simp
  moreover have "ucast (fst (getInterruptFlags clear s)) = a"
    by (simp only: r assemble16_low)
  moreover have "ucast (drop_bit 8 (fst (getInterruptFlags clear s))) = b"
    by (simp only: r assemble16_high)
  ultimately show ?thesis by blast
qed

text \<open>
  Bank A = 0b00000001 with bank B = 0x00 gives 0x0001, and bank A = 0x00 with
  bank B = 0b00000001 gives 0x0100.
\<close>

theorem getInterruptFlags_assembles_witness:
  "readReg INTFA flagA_world = (0x01, snd (readReg INTFA flagA_world))
   \<and> readReg INTFB (snd (readReg INTFA flagA_world))
       = (0x00, snd (readReg INTFB (snd (readReg INTFA flagA_world))))
   \<and> fst (getInterruptFlags False flagA_world) = 0x0001
   \<and> readReg INTFA flagB_world = (0x00, snd (readReg INTFA flagB_world))
   \<and> readReg INTFB (snd (readReg INTFA flagB_world))
       = (0x01, snd (readReg INTFB (snd (readReg INTFA flagB_world))))
   \<and> fst (getInterruptFlags False flagB_world) = 0x0100"
proof -
  have a1: "readReg INTFA flagA_world = (0x01, snd (readReg INTFA flagA_world))"
    by (simp add: bus_defs world_defs reg_defs)
  have a2: "readReg INTFB (snd (readReg INTFA flagA_world))
       = (0x00, snd (readReg INTFB (snd (readReg INTFA flagA_world))))"
    by (simp add: bus_defs world_defs reg_defs)
  have b1: "readReg INTFA flagB_world = (0x00, snd (readReg INTFA flagB_world))"
    by (simp add: bus_defs world_defs reg_defs)
  have b2: "readReg INTFB (snd (readReg INTFA flagB_world))
       = (0x01, snd (readReg INTFB (snd (readReg INTFA flagB_world))))"
    by (simp add: bus_defs world_defs reg_defs)
  show ?thesis
    using a1 a2 b1 b2
      getInterruptFlags_assembles [OF a1 a2, of False]
      getInterruptFlags_assembles [OF b1 b2, of False]
    by simp
qed

section \<open>Pin direction and pull-up\<close>

lemma pinMode_healthy:
  "p \<le> 15 \<Longrightarrow> healthy s \<Longrightarrow> mode \<noteq> pin_Mode_other \<Longrightarrow>
   chip (pinMode p mode s) =
     (chip s)((if p < 8 then IODIRA else IODIRB) :=
                (if mode = OUTPUT
                 then and_assign (chip s (if p < 8 then IODIRA else IODIRB)) (NOT (shl1 (unat p mod 8)))
                 else or_assign (chip s (if p < 8 then IODIRA else IODIRB)) (shl1 (unat p mod 8))),
              (if p < 8 then GPPUA else GPPUB) :=
                (if mode = INPUT_PULLUP
                 then or_assign (chip s (if p < 8 then GPPUA else GPPUB)) (shl1 (unat p mod 8))
                 else and_assign (chip s (if p < 8 then GPPUA else GPPUB)) (NOT (shl1 (unat p mod 8)))))"
  by (cases mode)
    (simp_all add: pinMode_def pinCheck_ok readReg_healthy writeReg_healthy unat_mod8 reg_defs)

text \<open>
  C2. For a pin index \<open>p\<close> in 0..15 and any register contents, on a working
  transport: after \<^verbatim>\<open>pinMode(p, OUTPUT)\<close> the direction bit and the pull-up bit
  at position \<open>p mod 8\<close> of \<open>p\<close>'s bank are both clear; after
  \<^verbatim>\<open>pinMode(p, INPUT)\<close> the direction bit is set and the pull-up bit clear; after
  \<^verbatim>\<open>pinMode(p, INPUT_PULLUP)\<close> both are set.
\<close>

theorem pinMode_bits:
  assumes "p \<le> 15" and "healthy s"
  shows "\<not> bit (chip (pinMode p OUTPUT s) (if p < 8 then IODIRA else IODIRB)) (unat p mod 8)
       \<and> \<not> bit (chip (pinMode p OUTPUT s) (if p < 8 then GPPUA else GPPUB)) (unat p mod 8)
       \<and> bit (chip (pinMode p INPUT s) (if p < 8 then IODIRA else IODIRB)) (unat p mod 8)
       \<and> \<not> bit (chip (pinMode p INPUT s) (if p < 8 then GPPUA else GPPUB)) (unat p mod 8)
       \<and> bit (chip (pinMode p INPUT_PULLUP s) (if p < 8 then IODIRA else IODIRB)) (unat p mod 8)
       \<and> bit (chip (pinMode p INPUT_PULLUP s) (if p < 8 then GPPUA else GPPUB)) (unat p mod 8)"
proof -
  have n: "unat p mod 8 < 32" "unat p mod 8 < 8"
    by simp_all
  show ?thesis
    using n by (simp add: pinMode_healthy [OF assms] bit_or_assign_shl1 bit_and_assign_not_shl1 reg_defs)
qed

theorem pinMode_bits_witness:
  "(9::u8) \<le> 15 \<and> healthy ones_world
   \<and> \<not> bit (chip (pinMode 9 OUTPUT ones_world) IODIRB) 1
   \<and> \<not> bit (chip (pinMode 9 OUTPUT ones_world) GPPUB) 1
   \<and> bit (chip (pinMode 9 INPUT ones_world) IODIRB) 1
   \<and> \<not> bit (chip (pinMode 9 INPUT ones_world) GPPUB) 1
   \<and> bit (chip (pinMode 9 INPUT_PULLUP ones_world) IODIRB) 1
   \<and> bit (chip (pinMode 9 INPUT_PULLUP ones_world) GPPUB) 1"
proof -
  have h: "(9::u8) \<le> 15" "healthy ones_world"
    by (simp_all add: healthy_def ones_world_def)
  show ?thesis
    using h pinMode_bits [OF h] by simp
qed

section \<open>Interrupt trigger mode\<close>

lemma intTriggerMode_other_healthy:
  "p \<le> 15 \<Longrightarrow> healthy s \<Longrightarrow> chip (intTriggerMode p int_Mode_other s) = chip s"
  by (simp add: intTriggerMode_def pinCheck_ok readReg_healthy log_err_def)

lemma intTriggerMode_healthy:
  "p \<le> 15 \<Longrightarrow> healthy s \<Longrightarrow> mode \<noteq> int_Mode_other \<Longrightarrow>
   chip (intTriggerMode p mode s) =
     (chip s)((if p < 8 then INTCONA else INTCONB) :=
                (if mode = CHANGE
                 then and_assign (chip s (if p < 8 then INTCONA else INTCONB)) (NOT (shl1 (unat p mod 8)))
                 else or_assign (chip s (if p < 8 then INTCONA else INTCONB)) (shl1 (unat p mod 8))),
              (if p < 8 then DEFVALA else DEFVALB) :=
                (case mode of
                   CHANGE \<Rightarrow> chip s (if p < 8 then DEFVALA else DEFVALB)
                 | RISING \<Rightarrow> or_assign (chip s (if p < 8 then DEFVALA else DEFVALB)) (shl1 (unat p mod 8))
                 | FALLING \<Rightarrow> and_assign (chip s (if p < 8 then DEFVALA else DEFVALB)) (NOT (shl1 (unat p mod 8)))
                 | int_Mode_other \<Rightarrow> chip s (if p < 8 then DEFVALA else DEFVALB)))"
  by (cases mode)
    (simp_all add: intTriggerMode_def pinCheck_ok readReg_healthy writeReg_healthy unat_mod8 reg_defs)

text \<open>
  C3. For a pin index \<open>p\<close> in 0..15, on a working transport:
  \<^verbatim>\<open>intTriggerMode(p, RISING)\<close> sets the INTCON bit and the DEFVAL bit at position
  \<open>p mod 8\<close> of \<open>p\<close>'s bank; \<^verbatim>\<open>FALLING\<close> sets the INTCON bit and clears the
  DEFVAL bit; \<^verbatim>\<open>CHANGE\<close> clears the INTCON bit and leaves the DEFVAL register as
  it was; in every mode all other bits of both registers keep their values.
\<close>

theorem intTriggerMode_encoding:
  assumes "p \<le> 15" and "healthy s"
  shows "bit (chip (intTriggerMode p RISING s) (if p < 8 then INTCONA else INTCONB)) (unat p mod 8)
       \<and> bit (chip (intTriggerMode p RISING s) (if p < 8 then DEFVALA else DEFVALB)) (unat p mod 8)
       \<and> bit (chip (intTriggerMode p FALLING s) (if p < 8 then INTCONA else INTCONB)) (unat p mod 8)
       \<and> \<not> bit (chip (intTriggerMode p FALLING s) (if p < 8 then DEFVALA else DEFVALB)) (unat p mod 8)
       \<and> \<not> bit (chip (intTriggerMode p CHANGE s) (if p < 8 then INTCONA else INTCONB)) (unat p mod 8)
       \<and> chip (intTriggerMode p CHANGE s) (if p < 8 then DEFVALA else DEFVALB)
           = chip s (if p < 8 then DEFVALA else DEFVALB)
       \<and> (\<forall>k. k \<noteq> unat p mod 8 \<longrightarrow>
             bit (chip (intTriggerMode p mode s) (if p < 8 then INTCONA else INTCONB)) k
               = bit (chip s (if p < 8 then INTCONA else INTCONB)) k
           \<and> bit (chip (intTriggerMode p mode s) (if p < 8 then DEFVALA else DEFVALB)) k
               = bit (chip s (if p < 8 then DEFVALA else DEFVALB)) k)"
proof -
  have n: "unat p mod 8 < 32" "unat p mod 8 < 8"
    by simp_all
  have frame: "bit (chip (intTriggerMode p mode s) (if p < 8 then INTCONA else INTCONB)) k
               = bit (chip s (if p < 8 then INTCONA else INTCONB)) k
           \<and> bit (chip (intTriggerMode p mode s) (if p < 8 then DEFVALA else DEFVALB)) k
               = bit (chip s (if p < 8 then DEFVALA else DEFVALB)) k"
    if "k \<noteq> unat p mod 8" for k
    using n that
    by (cases mode)
      (auto simp: intTriggerMode_healthy [OF assms] intTriggerMode_other_healthy [OF assms]
        bit_or_assign_shl1 bit_and_assign_not_shl1 reg_defs dest: bit_imp_le_length)
  have modes: "bit (chip (intTriggerMode p RISING s) (if p < 8 then INTCONA else INTCONB)) (unat p mod 8)
       \<and> bit (chip (intTriggerMode p RISING s) (if p < 8 then DEFVALA else DEFVALB)) (unat p mod 8)
       \<and> bit (chip (intTriggerMode p FALLING s) (if p < 8 then INTCONA else INTCONB)) (unat p mod 8)
       \<and> \<not> bit (chip (intTriggerMode p FALLING s) (if p < 8 then DEFVALA else DEFVALB)) (unat p mod 8)
       \<and> \<not> bit (chip (intTriggerMode p CHANGE s) (if p < 8 then INTCONA else INTCONB)) (unat p mod 8)
       \<and> chip (intTriggerMode p CHANGE s) (if p < 8 then DEFVALA else DEFVALB)
           = chip s (if p < 8 then DEFVALA else DEFVALB)"
    using n
    by (simp add: intTriggerMode_healthy [OF assms] bit_or_assign_shl1 bit_and_assign_not_shl1
        reg_defs)
  from modes frame show ?thesis by blast
qed

theorem intTriggerMode_encoding_witness:
  "(3::u8) \<le> 15 \<and> healthy ones_world
   \<and> bit (chip (intTriggerMode 3 RISING ones_world) INTCONA) 3
   \<and> bit (chip (intTriggerMode 3 RISING ones_world) DEFVALA) 3
   \<and> bit (chip (intTriggerMode 3 FALLING ones_world) INTCONA) 3
   \<and> \<not> bit (chip (intTriggerMode 3 FALLING ones_world) DEFVALA) 3
   \<and> \<not> bit (chip (intTriggerMode 3 CHANGE ones_world) INTCONA) 3
   \<and> chip (intTriggerMode 3 CHANGE ones_world) DEFVALA = chip ones_world DEFVALA
   \<and> (4::nat) \<noteq> 3
   \<and> bit (chip (intTriggerMode 3 FALLING ones_world) INTCONA) 4
        = bit (chip ones_world INTCONA) 4
   \<and> bit (chip (intTriggerMode 3 FALLING ones_world) DEFVALA) 4
        = bit (chip ones_world DEFVALA) 4"
proof -
  have h: "(3::u8) \<le> 15" "healthy ones_world"
    by (simp_all add: healthy_def ones_world_def)
  show ?thesis
    using h intTriggerMode_encoding [OF h, of FALLING] by simp
qed

section \<open>Digital output\<close>

lemma pinWrite_healthy:
  "p \<le> 15 \<Longrightarrow> healthy s \<Longrightarrow> v \<noteq> ERROR \<Longrightarrow>
   pinWrite p v s =
     (let reg = (if p < 8 then OLATA else OLATB);
          w = (if v = HIGH then or_assign (chip s reg) (shl1 (unat p mod 8))
               else and_assign (chip s reg) (NOT (shl1 (unat p mod 8))))
      in s\<lparr>ptr := reg, chip := (chip s)(reg := w),
            calls := calls s @ [SysWrite [reg] True, SysRead True, SysWrite [reg, w] True]\<rparr>)"
  by (cases v)
    (simp_all add: pinWrite_def pinCheck_ok readReg_healthy writeReg_healthy unat_mod8 Let_def)

text \<open>
  C5. For a pin index \<open>p\<close> in 0..15 and a value HIGH or LOW, on a working
  transport \<^verbatim>\<open>pinWrite\<close> selects and reads the bank's output latch (OLATA or
  OLATB, never GPIOA or GPIOB) and writes one byte back to it; in that byte bit
  \<open>p mod 8\<close> is set exactly for HIGH and every other bit equals the bit read.
\<close>

theorem pinWrite_frame:
  assumes "p \<le> 15" and "healthy s" and "v = HIGH \<or> v = LOW"
  shows "calls (pinWrite p v s) =
           calls s @ [SysWrite [if p < 8 then OLATA else OLATB] True, SysRead True,
                      SysWrite [if p < 8 then OLATA else OLATB,
                                chip (pinWrite p v s) (if p < 8 then OLATA else OLATB)] True]
       \<and> (bit (chip (pinWrite p v s) (if p < 8 then OLATA else OLATB)) (unat p mod 8)
            \<longleftrightarrow> v = HIGH)
       \<and> (\<forall>k. k \<noteq> unat p mod 8 \<longrightarrow>
             bit (chip (pinWrite p v s) (if p < 8 then OLATA else OLATB)) k
               = bit (chip s (if p < 8 then OLATA else OLATB)) k)"
proof -
  have n: "unat p mod 8 < 32" "unat p mod 8 < 8"
    by simp_all
  have v: "v \<noteq> ERROR"
    using assms(3) by auto
  show ?thesis
    using n assms(3)
    by (auto simp: pinWrite_healthy [OF assms(1,2) v] Let_def bit_or_assign_shl1
        bit_and_assign_not_shl1 dest: bit_imp_le_length)
qed

theorem pinWrite_frame_witness:
  "(10::u8) \<le> 15 \<and> healthy ones_world \<and> (LOW = HIGH \<or> LOW = LOW)
   \<and> calls (pinWrite 10 LOW ones_world)
        = [SysWrite [OLATB] True, SysRead True, SysWrite [OLATB, 0xFB] True]
   \<and> \<not> bit (chip (pinWrite 10 LOW ones_world) OLATB) 2
   \<and> (3::nat) \<noteq> 2
   \<and> bit (chip (pinWrite 10 LOW ones_world) OLATB) 3 = bit (chip ones_world OLATB) 3"
proof -
  have h: "(10::u8) \<le> 15" "healthy ones_world" "LOW = HIGH \<or> LOW = LOW"
    by (simp_all add: healthy_def ones_world_def)
  have w: "chip (pinWrite 10 LOW ones_world) OLATB = 0xFB"
    by (simp add: pinWrite_def bus_defs ones_world_def reg_defs and_assign_def shl1_def)
  show ?thesis
    using h w pinWrite_frame [OF h] by (simp add: ones_world_def)
qed

section \<open>Interrupt output configuration\<close>

text \<open>
  C6. Whatever the polarity and mirror arguments and whatever the read of IOCON
  returned, the last system call of \<^verbatim>\<open>intOutputMode\<close> writes to IOCON a byte
  whose bit 1 is set exactly when open-drain is not requested and the requested
  polarity is HIGH; with open-drain requested the bit is clear.
\<close>

theorem intOutputMode_polarity:
  "\<exists>v ok. calls (intOutputMode w_INTPOL w_ODR w_MIRROR s)
             = calls (snd (readReg IOCON s)) @ [SysWrite [IOCON, v] ok]
         \<and> (bit v 1 \<longleftrightarrow> \<not> w_ODR \<and> w_INTPOL = HIGH)"
proof -
  obtain val s1 where r: "readReg IOCON s = (val, s1)"
    by (cases "readReg IOCON s")
  define val1 where "val1 = (if w_ODR then or_assign val (shl1 2) else and_assign val (NOT (shl1 2)))"
  define val2 where "val2 = (if \<not> w_ODR
                  then (if w_INTPOL = HIGH then or_assign val1 (shl1 1)
                        else and_assign val1 (NOT (shl1 1)))
                  else and_assign val1 (NOT (shl1 1)))"
  define val3 where "val3 = (if w_MIRROR then or_assign val2 (shl1 6) else and_assign val2 (NOT (shl1 6)))"
  have eq: "intOutputMode w_INTPOL w_ODR w_MIRROR s = writeReg IOCON val3 s1"
    by (simp add: intOutputMode_def r val1_def val2_def val3_def Let_def)
  have b2: "bit val2 1 \<longleftrightarrow> \<not> w_ODR \<and> w_INTPOL = HIGH"
    by (simp add: val2_def bit_or_assign_shl1 bit_and_assign_not_shl1)
  have b3: "bit val3 1 \<longleftrightarrow> bit val2 1"
    by (simp add: val3_def bit_or_assign_shl1 bit_and_assign_not_shl1)
  have "calls (writeReg IOCON val3 s1) =
          calls s1 @ [SysWrite [IOCON, val3] (0 \<le> fd s1 \<and> (faults s1 = [] \<or> \<not> hd (faults s1)))]"
    by (rule calls_writeReg)
  with eq r b2 b3 show ?thesis
    by auto
qed

section \<open>Interrupt status of one pin\<close>

text \<open>
  C10. For a pin index \<open>p\<close> in 0..15, on a working transport,
  \<^verbatim>\<open>isInterruptOnPin(p, true)\<close> reads INTFA and INTFB, then writes 0x00 to both,
  whatever the flags were; its result is bit \<open>p mod 8\<close> of the byte of \<open>p\<close>'s
  bank as it was read before the two writes.
\<close>

theorem isInterruptOnPin_clear:
  assumes "p \<le> 15" and "healthy s"
  shows "fst (isInterruptOnPin p True s)
           = bit (if p < 8 then chip s INTFA else chip s INTFB) (unat p mod 8)
       \<and> calls (snd (isInterruptOnPin p True s))
           = calls s @ [SysWrite [INTFA] True, SysRead True, SysWrite [INTFB] True, SysRead True,
                        SysWrite [INTFA, 0x00] True, SysWrite [INTFB, 0x00] True]
       \<and> chip (snd (isInterruptOnPin p True s)) = (chip s)(INTFA := 0x00, INTFB := 0x00)"
proof -
  have u: "unat p < 16"
    using assms(1) by (simp add: word_le_nat_alt)
  have "bit (assemble16 (chip s INTFB) (chip s INTFA)) (unat p)
          = bit (if p < 8 then chip s INTFA else chip s INTFB) (unat p mod 8)"
  proof (cases "p < 8")
    case True
    then have "unat p < 8" by (simp add: word_less_nat_alt)
    then show ?thesis using True by (simp add: bit_assemble16)
  next
    case False
    then have "8 \<le> unat p" by (simp add: word_less_nat_alt)
    moreover from this u have "unat p mod 8 = unat p - 8"
      by (simp add: mod_if)
    ultimately show ?thesis using False by (simp add: bit_assemble16)
  qed
  then show ?thesis
    using u by (simp add: isInterruptOnPin_def pinCheck_ok assms readIntFlags_healthy test_bit16_iff)
qed

theorem isInterruptOnPin_clear_witness:
  "(5::u8) \<le> 15 \<and> healthy idle_world
   \<and> fst (isInterruptOnPin 5 True idle_world) = False
   \<and> calls (snd (isInterruptOnPin 5 True idle_world))
        = [SysWrite [INTFA] True, SysRead True, SysWrite [INTFB] True, SysRead True,
           SysWrite [INTFA, 0x00] True, SysWrite [INTFB, 0x00] True]
   \<and> chip (snd (isInterruptOnPin 5 True idle_world)) INTFA = 0x00
   \<and> chip (snd (isInterruptOnPin 5 True idle_world)) INTFB = 0x00"
proof -
  have h: "(5::u8) \<le> 15" "healthy idle_world"
    by (simp_all add: healthy_def idle_world_def)
  show ?thesis
    using h isInterruptOnPin_clear [OF h] by (simp add: idle_world_def)
qed

section \<open>Interrupt capture\<close>

lemma getIntCapture_loop_events:
  "n \<le> 16 \<Longrightarrow>
   fst (getIntCapture_loop clear flags captured n events s) =
     events @ map (\<lambda>k. \<lparr>pin = of_nat k, level = bit captured k\<rparr>) (filter (bit flags) [n..<16])"
proof (induction clear flags captured n events s rule: getIntCapture_loop.induct)
  case (1 clear flags captured n events s)
  show ?case
  proof (cases "n < 16")
    case True
    then have upt: "[n..<16] = n # [n + 1..<16]"
      by (simp add: upt_conv_Cons)
    show ?thesis
      using True 1
      by (subst getIntCapture_loop.simps) (simp add: upt test_bit16_iff)
  next
    case False
    then show ?thesis
      by (subst getIntCapture_loop.simps) simp
  qed
qed

lemma getIntCapture_loop_state:
  "n \<le> 16 \<Longrightarrow>
   snd (getIntCapture_loop clear flags captured n events s) =
     (if clear then fold (\<lambda>k. clearIntCapture (of_nat k)) (filter (bit flags) [n..<16]) s else s)"
proof (induction clear flags captured n events s rule: getIntCapture_loop.induct)
  case (1 clear flags captured n events s)
  show ?case
  proof (cases "n < 16")
    case True
    then have upt: "[n..<16] = n # [n + 1..<16]"
      by (simp add: upt_conv_Cons)
    show ?thesis
      using True 1
      by (subst getIntCapture_loop.simps) (auto simp: upt test_bit16_iff)
  next
    case False
    then show ?thesis
      by (subst getIntCapture_loop.simps) simp
  qed
qed

lemma clearIntCapture_healthy:
  "k < 16 \<Longrightarrow> healthy s \<Longrightarrow>
   clearIntCapture (of_nat k) s =
     s\<lparr>ptr := (if k < 8 then GPIOA else GPIOB),
       calls := calls s @ [SysWrite [if k < 8 then GPIOA else GPIOB] True, SysRead True]\<rparr>"
  by (simp add: clearIntCapture_def readReg_healthy word_less_nat_alt unat_of_nat)

lemma fold_clearIntCapture_healthy:
  "\<forall>k\<in>set ks. k < 16 \<Longrightarrow> healthy s \<Longrightarrow>
   healthy (fold (\<lambda>k. clearIntCapture (of_nat k)) ks s)
   \<and> chip (fold (\<lambda>k. clearIntCapture (of_nat k)) ks s) = chip s
   \<and> calls (fold (\<lambda>k. clearIntCapture (of_nat k)) ks s) =
       calls s @ concat (map (\<lambda>k. [SysWrite [if k < 8 then GPIOA else GPIOB] True, SysRead True]) ks)"
proof (induction ks arbitrary: s)
  case Nil
  then show ?case by simp
next
  case (Cons k ks)
  have k: "k < 16" and ks: "\<forall>j\<in>set ks. j < 16"
    using Cons.prems(1) by simp_all
  let ?s1 = "clearIntCapture (of_nat k) s"
  have s1: "?s1 = s\<lparr>ptr := (if k < 8 then GPIOA else GPIOB),
       calls := calls s @ [SysWrite [if k < 8 then GPIOA else GPIOB] True, SysRead True]\<rparr>"
    using k Cons.prems(2) by (rule clearIntCapture_healthy)
  have h1: "healthy ?s1"
    using Cons.prems(2) by (simp add: s1)
  from Cons.IH [OF ks h1] show ?case
    by (simp add: s1)
qed

text \<open>
  C9. On a working transport \<^verbatim>\<open>getIntCapture(clear)\<close> returns one event per set
  bit of the assembled 16-bit flags, in ascending pin order, each with the level
  of the same bit of the assembled 16-bit capture value. After its four register
  reads it makes, when \<open>clear\<close> is true, one read of GPIOA or GPIOB (the bank
  of the pin) per reported pin and nothing else; no call ever writes a register
  value, so the chip's registers, the flag registers among them, are unchanged.
\<close>

theorem getIntCapture_events:
  assumes "healthy s"
  shows "fst (getIntCapture clear s) =
           map (\<lambda>k. \<lparr>pin = of_nat k,
                      level = bit (assemble16 (chip s INTCAPB) (chip s INTCAPA)) k\<rparr>)
             (filter (bit (assemble16 (chip s INTFB) (chip s INTFA))) [0..<16])
       \<and> calls (snd (getIntCapture clear s)) =
           calls s @ [SysWrite [INTFA] True, SysRead True, SysWrite [INTFB] True, SysRead True,
                      SysWrite [INTCAPA] True, SysRead True, SysWrite [INTCAPB] True, SysRead True]
             @ (if clear
                then concat (map (\<lambda>k. [SysWrite [if k < 8 then GPIOA else GPIOB] True, SysRead True])
                       (filter (bit (assemble16 (chip s INTFB) (chip s INTFA))) [0..<16]))
                else [])
       \<and> chip (snd (getIntCapture clear s)) = chip s"
proof -
  let ?flags = "assemble16 (chip s INTFB) (chip s INTFA)"
  let ?captured = "assemble16 (chip s INTCAPB) (chip s INTCAPA)"
  let ?s4 = "s\<lparr>ptr := INTCAPB,
                calls := calls s @ [SysWrite [INTFA] True, SysRead True,
                                    SysWrite [INTFB] True, SysRead True,
                                    SysWrite [INTCAPA] True, SysRead True,
                                    SysWrite [INTCAPB] True, SysRead True]\<rparr>"
  have eq: "getIntCapture clear s = getIntCapture_loop clear ?flags ?captured 0 [] ?s4"
    using assms by (simp add: getIntCapture_def readReg_healthy)
  have h4: "healthy ?s4"
    using assms by simp
  have ks: "\<forall>k\<in>set (filter (bit ?flags) [0..<16]). k < 16"
    by simp
  note fold = fold_clearIntCapture_healthy [OF ks h4]
  have ev: "fst (getIntCapture clear s) =
      map (\<lambda>k. \<lparr>pin = of_nat k, level = bit ?captured k\<rparr>) (filter (bit ?flags) [0..<16])"
    by (simp add: eq getIntCapture_loop_events)
  have st: "snd (getIntCapture clear s) =
      (if clear then fold (\<lambda>k. clearIntCapture (of_nat k)) (filter (bit ?flags) [0..<16]) ?s4
       else ?s4)"
    by (simp only: eq getIntCapture_loop_state [OF zero_le])
  have ca: "calls (snd (getIntCapture clear s)) =
      calls ?s4 @ (if clear
         then concat (map (\<lambda>k. [SysWrite [if k < 8 then GPIOA else GPIOB] True, SysRead True])
                 (filter (bit ?flags) [0..<16]))
         else [])"
    using fold by (simp add: st)
  have ch: "chip (snd (getIntCapture clear s)) = chip s"
    using fold by (simp add: st)
  from ev ca ch show ?thesis
    by simp
qed

theorem getIntCapture_events_witness:
  "healthy capture_world
   \<and> fst (getIntCapture True capture_world)
       = [\<lparr>pin = 0, level = False\<rparr>, \<lparr>pin = 2, level = True\<rparr>, \<lparr>pin = 8, level = False\<rparr>]
   \<and> calls (snd (getIntCapture True capture_world))
       = [SysWrite [INTFA] True, SysRead True, SysWrite [INTFB] True, SysRead True,
          SysWrite [INTCAPA] True, SysRead True, SysWrite [INTCAPB] True, SysRead True,
          SysWrite [GPIOA] True, SysRead True, SysWrite [GPIOA] True, SysRead True,
          SysWrite [GPIOB] True, SysRead True]
   \<and> chip (snd (getIntCapture True capture_world)) = chip capture_world"
proof -
  have h: "healthy capture_world"
    by (simp add: healthy_def capture_world_def idle_world_def)
  have f: "filter (bit (assemble16 0x01 0x05)) [0..<16] = [0, 2, 8]"
    by code_simp
  have c: "chip capture_world INTFA = 0x05" "chip capture_world INTFB = 0x01"
    "chip capture_world INTCAPA = 0x04" "chip capture_world INTCAPB = 0x00"
    "calls capture_world = []"
    by (simp_all add: capture_world_def idle_world_def reg_defs)
  show ?thesis
    using h getIntCapture_events [OF h, of True]
    by (simp add: c f bit_assemble16)
qed

section \<open>Invalid pin indices\<close>

text \<open>
  C4, as the code has it. The pin parameter is a \<^verbatim>\<open>uint8_t\<close>, so an index
  outside 0..15 arrives as a value in 16..255 (-1 as 255). For such an index
  each of the six operations taking a pin makes no system call and changes
  nothing but \<^verbatim>\<open>std::cerr\<close>, which receives the line "Valid Pinnums 0-15";
  \<^verbatim>\<open>pinRead\<close> returns \<^verbatim>\<open>ERROR\<close>, \<^verbatim>\<open>isInterruptOnPin\<close> returns false, and the
  four \<^verbatim>\<open>void\<close> operations return nothing.
\<close>

theorem invalid_pin_rejected:
  assumes "15 < p"
  shows "pinMode p mode s = s\<lparr>cerr := cerr s @ [''Valid Pinnums 0-15'']\<rparr>
       \<and> pinWrite p v s = s\<lparr>cerr := cerr s @ [''Valid Pinnums 0-15'']\<rparr>
       \<and> pinRead p s = (ERROR, s\<lparr>cerr := cerr s @ [''Valid Pinnums 0-15'']\<rparr>)
       \<and> enableInt p enable s = s\<lparr>cerr := cerr s @ [''Valid Pinnums 0-15'']\<rparr>
       \<and> intTriggerMode p tmode s = s\<lparr>cerr := cerr s @ [''Valid Pinnums 0-15'']\<rparr>
       \<and> isInterruptOnPin p clear s = (False, s\<lparr>cerr := cerr s @ [''Valid Pinnums 0-15'']\<rparr>)"
  using assms
  by (simp add: pinMode_def pinWrite_def pinRead_def enableInt_def intTriggerMode_def
      isInterruptOnPin_def pinCheck_bad log_err_def)

theorem invalid_pin_rejected_witness:
  "(15::u8) < 16
   \<and> calls (pinMode 16 OUTPUT ones_world) = []
   \<and> calls (pinWrite 16 HIGH ones_world) = []
   \<and> pinRead 16 ones_world = (ERROR, ones_world\<lparr>cerr := [''Valid Pinnums 0-15'']\<rparr>)
   \<and> calls (enableInt 16 True ones_world) = []
   \<and> calls (intTriggerMode 16 RISING ones_world) = []
   \<and> isInterruptOnPin 16 True ones_world = (False, ones_world\<lparr>cerr := [''Valid Pinnums 0-15'']\<rparr>)
   \<and> (15::u8) < 255
   \<and> pinRead 255 ones_world = (ERROR, ones_world\<lparr>cerr := [''Valid Pinnums 0-15'']\<rparr>)"
proof -
  have h: "(15::u8) < 16" "(15::u8) < 255"
    by simp_all
  show ?thesis
    using h invalid_pin_rejected [OF h(1), of OUTPUT ones_world HIGH True RISING True]
      invalid_pin_rejected [OF h(2), of OUTPUT ones_world HIGH True RISING True]
    by (simp add: ones_world_def)
qed

text \<open>
  The failure is not visible in what the caller gets back: for the invalid pin
  16 \<^verbatim>\<open>isInterruptOnPin\<close> returns the same value as for the valid pin 0 with
  no flag set, and \<^verbatim>\<open>pinMode(16, OUTPUT)\<close> leaves only the line on
  \<^verbatim>\<open>std::cerr\<close>, with the chip's registers as they are after the valid
  \<^verbatim>\<open>pinMode(0, OUTPUT)\<close>.
\<close>

theorem invalid_pin_not_surfaced:
  "fst (isInterruptOnPin 16 False idle_world) = fst (isInterruptOnPin 0 False idle_world)
   \<and> pinMode 16 OUTPUT idle_world = idle_world\<lparr>cerr := [''Valid Pinnums 0-15'']\<rparr>
   \<and> chip (pinMode 16 OUTPUT idle_world) = chip (pinMode 0 OUTPUT idle_world)"
  by (simp add: isInterruptOnPin_def pinMode_def readIntFlags_def bus_defs idle_world_def
      assemble16_def test_bit16_def and_assign_def shl1_def reg_defs fun_eq_iff)

section \<open>Failed priming reads\<close>

lemma readReg_fails_zero: "readReg_fails reg s \<Longrightarrow> fst (readReg reg s) = 0"
  by (auto simp: readReg_fails_def readReg_def split: prod.splits bool.splits option.splits)

lemma readReg_fails_cerr:
  "readReg_fails reg s \<Longrightarrow> cerr (snd (readReg reg s)) = cerr s @ [''Error: I2C write failed'']"
  by (auto simp: readReg_fails_def readReg_def sys_write_def sys_read_def log_err_def
      split: prod.splits bool.splits option.splits if_splits)

lemma or_assign_zero: "n < 8 \<Longrightarrow> or_assign 0 (shl1 n) = push_bit n 1"
  by (rule bit_word_eqI)
    (auto simp: bit_or_assign_shl1 bit_push_bit_iff bit_1_iff simp del: push_bit_of_1)

lemma and_assign_zero: "and_assign 0 m = 0"
  by (simp add: and_assign_def)

lemma pinWrite_unfold:
  "p \<le> 15 \<Longrightarrow> v \<noteq> ERROR \<Longrightarrow>
   pinWrite p v s =
     writeReg (if p < 8 then OLATA else OLATB)
       (if v = HIGH
        then or_assign (fst (readReg (if p < 8 then OLATA else OLATB) s)) (shl1 (unat p mod 8))
        else and_assign (fst (readReg (if p < 8 then OLATA else OLATB) s)) (NOT (shl1 (unat p mod 8))))
       (snd (readReg (if p < 8 then OLATA else OLATB) s))"
  by (cases v) (simp_all add: pinWrite_def pinCheck_ok case_prod_unfold Let_def unat_mod8)

lemma enableInt_unfold:
  "p \<le> 15 \<Longrightarrow>
   enableInt p enable s =
     writeReg (if p < 8 then GPINTENA else GPINTENB)
       (if enable
        then or_assign (fst (readReg (if p < 8 then GPINTENA else GPINTENB) s)) (shl1 (unat p mod 8))
        else and_assign (fst (readReg (if p < 8 then GPINTENA else GPINTENB) s)) (NOT (shl1 (unat p mod 8))))
       (snd (readReg (if p < 8 then GPINTENA else GPINTENB) s))"
  by (simp add: enableInt_def pinCheck_ok case_prod_unfold Let_def unat_mod8)

lemma pinMode_unfold:
  "p \<le> 15 \<Longrightarrow> mode \<noteq> pin_Mode_other \<Longrightarrow>
   pinMode p mode s =
     (let regDir = (if p < 8 then IODIRA else IODIRB);
          regPup = (if p < 8 then GPPUA else GPPUB);
          s1 = snd (readReg regDir s)
      in writeReg regPup
           (if mode = INPUT_PULLUP then or_assign (fst (readReg regPup s1)) (shl1 (unat p mod 8))
            else and_assign (fst (readReg regPup s1)) (NOT (shl1 (unat p mod 8))))
           (writeReg regDir
              (if mode = OUTPUT then and_assign (fst (readReg regDir s)) (NOT (shl1 (unat p mod 8)))
               else or_assign (fst (readReg regDir s)) (shl1 (unat p mod 8)))
              (snd (readReg regPup s1))))"
  by (cases mode) (simp_all add: pinMode_def pinCheck_ok case_prod_unfold Let_def unat_mod8)

lemma intTriggerMode_unfold:
  "p \<le> 15 \<Longrightarrow> mode \<noteq> int_Mode_other \<Longrightarrow>
   intTriggerMode p mode s =
     (let regDEFVAL = (if p < 8 then DEFVALA else DEFVALB);
          regINTCON = (if p < 8 then INTCONA else INTCONB);
          s1 = snd (readReg regINTCON s)
      in writeReg regDEFVAL
           (case mode of
              CHANGE \<Rightarrow> fst (readReg regDEFVAL s1)
            | RISING \<Rightarrow> or_assign (fst (readReg regDEFVAL s1)) (shl1 (unat p mod 8))
            | FALLING \<Rightarrow> and_assign (fst (readReg regDEFVAL s1)) (NOT (shl1 (unat p mod 8)))
            | int_Mode_other \<Rightarrow> fst (readReg regDEFVAL s1))
           (writeReg regINTCON
              (if mode = CHANGE then and_assign (fst (readReg regINTCON s)) (NOT (shl1 (unat p mod 8)))
               else or_assign (fst (readReg regINTCON s)) (shl1 (unat p mod 8)))
              (snd (readReg regDEFVAL s1))))"
  by (cases mode) (simp_all add: intTriggerMode_def pinCheck_ok case_prod_unfold Let_def unat_mod8)

lemma intOutputMode_zero:
  "readReg_fails IOCON s \<Longrightarrow>
   intOutputMode w_INTPOL w_ODR w_MIRROR s =
     writeReg IOCON
       ((if w_ODR then 0x04 else 0x00) OR (if \<not> w_ODR \<and> w_INTPOL = HIGH then 0x02 else 0x00)
          OR (if w_MIRROR then 0x40 else 0x00))
       (snd (readReg IOCON s))"
  by (simp add: intOutputMode_def case_prod_unfold Let_def readReg_fails_zero
      or_assign_def and_assign_def shl1_def)

text \<open>
  C7, as the code has it. A register read that fails makes \<^verbatim>\<open>readReg\<close> print
  "Error: I2C write failed" to \<^verbatim>\<open>std::cerr\<close> and return 0. When that read is a
  priming read of \<^verbatim>\<open>pinWrite\<close>, \<^verbatim>\<open>enableInt\<close>, \<^verbatim>\<open>intOutputMode\<close>, \<^verbatim>\<open>pinMode\<close>
  or \<^verbatim>\<open>intTriggerMode\<close>, called with a pin index in 0..15 and with the value
  HIGH or LOW or a mode that is one of the enumerators, the operation does not
  stop: after its reads it makes its register write(s), and the byte written to
  the register whose read failed is computed from 0.
\<close>

theorem failed_read_still_writes:
  assumes "p \<le> 15" and "mode \<noteq> pin_Mode_other" and "tmode \<noteq> int_Mode_other"
  shows "(readReg_fails reg s \<longrightarrow>
            fst (readReg reg s) = 0x00
          \<and> cerr (snd (readReg reg s)) = cerr s @ [''Error: I2C write failed''])
       \<and> (readReg_fails (if p < 8 then OLATA else OLATB) s \<longrightarrow>
            (\<exists>ok. calls (pinWrite p HIGH s)
               = calls (snd (readReg (if p < 8 then OLATA else OLATB) s))
                 @ [SysWrite [if p < 8 then OLATA else OLATB, push_bit (unat p mod 8) 1] ok])
          \<and> (\<exists>ok. calls (pinWrite p LOW s)
               = calls (snd (readReg (if p < 8 then OLATA else OLATB) s))
                 @ [SysWrite [if p < 8 then OLATA else OLATB, 0x00] ok]))
       \<and> (readReg_fails (if p < 8 then GPINTENA else GPINTENB) s \<longrightarrow>
            (\<exists>ok. calls (enableInt p enable s)
               = calls (snd (readReg (if p < 8 then GPINTENA else GPINTENB) s))
                 @ [SysWrite [if p < 8 then GPINTENA else GPINTENB,
                              if enable then push_bit (unat p mod 8) 1 else 0x00] ok]))
       \<and> (readReg_fails IOCON s \<longrightarrow>
            (\<exists>ok. calls (intOutputMode w_INTPOL w_ODR w_MIRROR s)
               = calls (snd (readReg IOCON s))
                 @ [SysWrite [IOCON,
                      (if w_ODR then 0x04 else 0x00)
                        OR (if \<not> w_ODR \<and> w_INTPOL = HIGH then 0x02 else 0x00)
                        OR (if w_MIRROR then 0x40 else 0x00)] ok]))
       \<and> (readReg_fails (if p < 8 then IODIRA else IODIRB) s \<longrightarrow>
            (\<exists>u ok1 ok2. calls (pinMode p mode s)
               = calls (snd (readReg (if p < 8 then GPPUA else GPPUB)
                               (snd (readReg (if p < 8 then IODIRA else IODIRB) s))))
                 @ [SysWrite [if p < 8 then IODIRA else IODIRB,
                              if mode = OUTPUT then 0x00 else push_bit (unat p mod 8) 1] ok1,
                    SysWrite [if p < 8 then GPPUA else GPPUB, u] ok2]))
       \<and> (readReg_fails (if p < 8 then GPPUA else GPPUB)
             (snd (readReg (if p < 8 then IODIRA else IODIRB) s)) \<longrightarrow>
            (\<exists>d ok1 ok2. calls (pinMode p mode s)
               = calls (snd (readReg (if p < 8 then GPPUA else GPPUB)
                               (snd (readReg (if p < 8 then IODIRA else IODIRB) s))))
                 @ [SysWrite [if p < 8 then IODIRA else IODIRB, d] ok1,
                    SysWrite [if p < 8 then GPPUA else GPPUB,
                              if mode = INPUT_PULLUP then push_bit (unat p mod 8) 1 else 0x00] ok2]))
       \<and> (readReg_fails (if p < 8 then INTCONA else INTCONB) s \<longrightarrow>
            (\<exists>d ok1 ok2. calls (intTriggerMode p tmode s)
               = calls (snd (readReg (if p < 8 then DEFVALA else DEFVALB)
                               (snd (readReg (if p < 8 then INTCONA else INTCONB) s))))
                 @ [SysWrite [if p < 8 then INTCONA else INTCONB,
                              if tmode = CHANGE then 0x00 else push_bit (unat p mod 8) 1] ok1,
                    SysWrite [if p < 8 then DEFVALA else DEFVALB, d] ok2]))
       \<and> (readReg_fails (if p < 8 then DEFVALA else DEFVALB)
             (snd (readReg (if p < 8 then INTCONA else INTCONB) s)) \<longrightarrow>
            (\<exists>c ok1 ok2. calls (intTriggerMode p tmode s)
               = calls (snd (readReg (if p < 8 then DEFVALA else DEFVALB)
                               (snd (readReg (if p < 8 then INTCONA else INTCONB) s))))
                 @ [SysWrite [if p < 8 then INTCONA else INTCONB, c] ok1,
                    SysWrite [if p < 8 then DEFVALA else DEFVALB,
                              if tmode = RISING then push_bit (unat p mod 8) 1 else 0x00] ok2]))"
proof -
  have n: "unat p mod 8 < 8"
    by simp
  note z = readReg_fails_zero or_assign_zero [OF n] and_assign_zero
  note pm = pinMode_unfold [OF assms(1,2)]
  note tm = intTriggerMode_unfold [OF assms(1,3)]
  have r: "readReg_fails reg s \<longrightarrow>
            fst (readReg reg s) = 0x00
          \<and> cerr (snd (readReg reg s)) = cerr s @ [''Error: I2C write failed'']"
    by (simp add: readReg_fails_zero readReg_fails_cerr)
  have w: "readReg_fails (if p < 8 then OLATA else OLATB) s \<longrightarrow>
            (\<exists>ok. calls (pinWrite p HIGH s)
               = calls (snd (readReg (if p < 8 then OLATA else OLATB) s))
                 @ [SysWrite [if p < 8 then OLATA else OLATB, push_bit (unat p mod 8) 1] ok])
          \<and> (\<exists>ok. calls (pinWrite p LOW s)
               = calls (snd (readReg (if p < 8 then OLATA else OLATB) s))
                 @ [SysWrite [if p < 8 then OLATA else OLATB, 0x00] ok])"
    by (simp add: pinWrite_unfold [OF assms(1)] calls_writeReg z del: push_bit_of_1)
  have e: "readReg_fails (if p < 8 then GPINTENA else GPINTENB) s \<longrightarrow>
            (\<exists>ok. calls (enableInt p enable s)
               = calls (snd (readReg (if p < 8 then GPINTENA else GPINTENB) s))
                 @ [SysWrite [if p < 8 then GPINTENA else GPINTENB,
                              if enable then push_bit (unat p mod 8) 1 else 0x00] ok])"
    by (simp add: enableInt_unfold [OF assms(1)] calls_writeReg z del: push_bit_of_1)
  have o: "readReg_fails IOCON s \<longrightarrow>
            (\<exists>ok. calls (intOutputMode w_INTPOL w_ODR w_MIRROR s)
               = calls (snd (readReg IOCON s))
                 @ [SysWrite [IOCON,
                      (if w_ODR then 0x04 else 0x00)
                        OR (if \<not> w_ODR \<and> w_INTPOL = HIGH then 0x02 else 0x00)
                        OR (if w_MIRROR then 0x40 else 0x00)] ok])"
    by (simp add: intOutputMode_zero calls_writeReg)
  have m1: "readReg_fails (if p < 8 then IODIRA else IODIRB) s \<longrightarrow>
            (\<exists>u ok1 ok2. calls (pinMode p mode s)
               = calls (snd (readReg (if p < 8 then GPPUA else GPPUB)
                               (snd (readReg (if p < 8 then IODIRA else IODIRB) s))))
                 @ [SysWrite [if p < 8 then IODIRA else IODIRB,
                              if mode = OUTPUT then 0x00 else push_bit (unat p mod 8) 1] ok1,
                    SysWrite [if p < 8 then GPPUA else GPPUB, u] ok2])"
    by (simp add: pm Let_def calls_writeReg z del: push_bit_of_1)
  have m2: "readReg_fails (if p < 8 then GPPUA else GPPUB)
             (snd (readReg (if p < 8 then IODIRA else IODIRB) s)) \<longrightarrow>
            (\<exists>d ok1 ok2. calls (pinMode p mode s)
               = calls (snd (readReg (if p < 8 then GPPUA else GPPUB)
                               (snd (readReg (if p < 8 then IODIRA else IODIRB) s))))
                 @ [SysWrite [if p < 8 then IODIRA else IODIRB, d] ok1,
                    SysWrite [if p < 8 then GPPUA else GPPUB,
                              if mode = INPUT_PULLUP then push_bit (unat p mod 8) 1 else 0x00] ok2])"
    by (simp add: pm Let_def calls_writeReg z del: push_bit_of_1)
  have t1: "readReg_fails (if p < 8 then INTCONA else INTCONB) s \<longrightarrow>
            (\<exists>d ok1 ok2. calls (intTriggerMode p tmode s)
               = calls (snd (readReg (if p < 8 then DEFVALA else DEFVALB)
                               (snd (readReg (if p < 8 then INTCONA else INTCONB) s))))
                 @ [SysWrite [if p < 8 then INTCONA else INTCONB,
                              if tmode = CHANGE then 0x00 else push_bit (unat p mod 8) 1] ok1,
                    SysWrite [if p < 8 then DEFVALA else DEFVALB, d] ok2])"
    by (simp add: tm Let_def calls_writeReg z del: push_bit_of_1)
  have t2: "readReg_fails (if p < 8 then DEFVALA else DEFVALB)
             (snd (readReg (if p < 8 then INTCONA else INTCONB) s)) \<longrightarrow>
            (\<exists>c ok1 ok2. calls (intTriggerMode p tmode s)
               = calls (snd (readReg (if p < 8 then DEFVALA else DEFVALB)
                               (snd (readReg (if p < 8 then INTCONA else INTCONB) s))))
                 @ [SysWrite [if p < 8 then INTCONA else INTCONB, c] ok1,
                    SysWrite [if p < 8 then DEFVALA else DEFVALB,
                              if tmode = RISING then push_bit (unat p mod 8) 1 else 0x00] ok2])"
    using assms(3)
    by (cases tmode)
      (simp_all add: intTriggerMode_unfold [OF assms(1)] Let_def calls_writeReg z
        del: push_bit_of_1)
  from r w e o m1 m2 t1 t2 show ?thesis
    by (intro conjI)
qed

theorem failed_read_still_writes_witness:
  "(0::u8) \<le> 15 \<and> INPUT \<noteq> pin_Mode_other \<and> RISING \<noteq> int_Mode_other
   \<and> readReg_fails OLATA nack2_world
   \<and> readReg_fails GPINTENA nack2_world
   \<and> readReg_fails IOCON nack2_world
   \<and> readReg_fails IODIRA nack2_world
   \<and> readReg_fails GPPUA (snd (readReg IODIRA nack2_world))
   \<and> readReg_fails INTCONA nack2_world
   \<and> readReg_fails DEFVALA (snd (readReg INTCONA nack2_world))
   \<and> fst (readReg OLATA nack2_world) = 0x00
   \<and> cerr (snd (readReg OLATA nack2_world)) = cerr nack2_world @ [''Error: I2C write failed'']
   \<and> (\<exists>ok. calls (pinWrite 0 HIGH nack2_world)
          = calls (snd (readReg OLATA nack2_world)) @ [SysWrite [OLATA, 0x01] ok])
   \<and> (\<exists>ok. calls (pinWrite 0 LOW nack2_world)
          = calls (snd (readReg OLATA nack2_world)) @ [SysWrite [OLATA, 0x00] ok])
   \<and> (\<exists>ok. calls (enableInt 0 True nack2_world)
          = calls (snd (readReg GPINTENA nack2_world)) @ [SysWrite [GPINTENA, 0x01] ok])
   \<and> (\<exists>ok. calls (intOutputMode HIGH False False nack2_world)
          = calls (snd (readReg IOCON nack2_world)) @ [SysWrite [IOCON, 0x02] ok])
   \<and> (\<exists>u ok1 ok2. calls (pinMode 0 INPUT nack2_world)
          = calls (snd (readReg GPPUA (snd (readReg IODIRA nack2_world))))
            @ [SysWrite [IODIRA, 0x01] ok1, SysWrite [GPPUA, u] ok2])
   \<and> (\<exists>d ok1 ok2. calls (pinMode 0 INPUT nack2_world)
          = calls (snd (readReg GPPUA (snd (readReg IODIRA nack2_world))))
            @ [SysWrite [IODIRA, d] ok1, SysWrite [GPPUA, 0x00] ok2])
   \<and> (\<exists>d ok1 ok2. calls (intTriggerMode 0 RISING nack2_world)
          = calls (snd (readReg DEFVALA (snd (readReg INTCONA nack2_world))))
            @ [SysWrite [INTCONA, 0x01] ok1, SysWrite [DEFVALA, d] ok2])
   \<and> (\<exists>c ok1 ok2. calls (intTriggerMode 0 RISING nack2_world)
          = calls (snd (readReg DEFVALA (snd (readReg INTCONA nack2_world))))
            @ [SysWrite [INTCONA, c] ok1, SysWrite [DEFVALA, 0x01] ok2])
   \<and> calls (pinMode 0 INPUT nack2_world)
        = [SysWrite [IODIRA] False, SysWrite [GPPUA] False,
           SysWrite [IODIRA, 0x01] True, SysWrite [GPPUA, 0x00] True]"
proof -
  have h0: "(0::u8) \<le> 15" "INPUT \<noteq> pin_Mode_other" "RISING \<noteq> int_Mode_other"
    by simp_all
  have h: "readReg_fails OLATA nack2_world" "readReg_fails GPINTENA nack2_world"
    "readReg_fails IOCON nack2_world" "readReg_fails IODIRA nack2_world"
    "readReg_fails GPPUA (snd (readReg IODIRA nack2_world))"
    "readReg_fails INTCONA nack2_world"
    "readReg_fails DEFVALA (snd (readReg INTCONA nack2_world))"
    by (simp_all add: readReg_fails_def bus_defs nack2_world_def ones_world_def)
  have c: "calls (pinMode 0 INPUT nack2_world)
        = [SysWrite [IODIRA] False, SysWrite [GPPUA] False,
           SysWrite [IODIRA, 0x01] True, SysWrite [GPPUA, 0x00] True]"
    by (simp add: pinMode_def bus_defs nack2_world_def ones_world_def
        or_assign_def and_assign_def shl1_def reg_defs)
  show ?thesis
    using h0 h c
      failed_read_still_writes [OF h0, of OLATA nack2_world True HIGH False False]
    by simp
qed

text \<open>
  With every latch bit set and the register-select write of the priming read
  failing, \<^verbatim>\<open>pinWrite(0, HIGH)\<close> does not stop: it writes 0x01 to OLATA, which
  clears the latch bits of pins 1 to 7.
\<close>

theorem failed_read_proceeds:
  "readReg_fails OLATA nack_world
   \<and> chip nack_world OLATA = 0xFF
   \<and> calls (pinWrite 0 HIGH nack_world) = [SysWrite [OLATA] False, SysWrite [OLATA, 0x01] True]
   \<and> chip (pinWrite 0 HIGH nack_world) OLATA = 0x01"
  by (simp add: readReg_fails_def pinWrite_def bus_defs nack_world_def ones_world_def
      or_assign_def shl1_def reg_defs)

section \<open>Failed open\<close>














end
